theory Spec2Isabelle
  imports Complex_Main
begin

section \<open>Evaluation functions of \<open>lab1_evalFunctions.py\<close>\<close>

text \<open>
  The module has three functions: \<open>calcAccuracy\<close>, \<open>calcConfusionMatrix\<close> and
  \<open>calcAccuracyCM\<close>. Labels are the elements of numpy integer arrays, that is int64
  values: the confusion matrix uses a label directly as an array index, which numpy
  accepts for integers only. They are modelled as \<open>int\<close>, and the model describes the code
  for labels from \<open>-2^63\<close> up to \<open>2^63 - 1\<close> (\<open>int64_labels\<close> below). A Python integer
  outside this range makes \<open>np.asarray\<close> and \<open>np.concatenate\<close> build an array of another
  dtype (uint64, float64 or object), in which distinct labels can compare equal and an
  index can fail in another way; the model does not cover such labels.
  The matrix \<open>np.zeros((classNum, classNum))\<close> is a list of rows; its float64 cells hold
  counts and are modelled as exact reals, and a float64 result of a division is a value
  of \<open>npfloat\<close>, so that the IEEE results of a division by zero are values of the model.
\<close>

subsection \<open>Errors and floating-point results\<close>

datatype py_error = ValueError string | IndexError

datatype npfloat = Fin real | PosInf | NegInf | NaN

text \<open>
  numpy's \<open>/\<close> on scalars: a zero divisor raises nothing, it gives \<open>nan\<close> for \<open>0/0\<close>
  and a signed infinity otherwise (with a RuntimeWarning only).
\<close>

definition true_divide :: "real \<Rightarrow> real \<Rightarrow> npfloat" where
  "true_divide x y =
     (if y \<noteq> 0 then Fin (x / y)
      else if x = 0 then NaN
      else if 0 < x then PosInf
      else NegInf)"

subsection \<open>The numpy operations the module calls\<close>

type_synonym matrix = "real list list"

definition np_zeros :: "nat \<Rightarrow> nat \<Rightarrow> matrix" where
  "np_zeros n m = replicate n (replicate m 0)"

text \<open>\<open>np.unique\<close>: the sorted list of the distinct elements.\<close>

definition np_unique :: "int list \<Rightarrow> int list" where
  "np_unique xs = sort (remdups xs)"

text \<open>
  An integer index \<open>i\<close> on an axis of size \<open>n\<close> is valid when \<open>-n \<le> i < n\<close>; a negative
  one counts from the end. Any other index raises IndexError.
\<close>

definition norm_index :: "nat \<Rightarrow> int \<Rightarrow> nat option" where
  "norm_index n i =
     (if 0 \<le> i \<and> i < int n then Some (nat i)
      else if - int n \<le> i \<and> i < 0 then Some (nat (i + int n))
      else None)"

text \<open>\<open>cM[i, j]\<close> read and \<open>cM[i, j] = v\<close> written.\<close>

definition getitem2 :: "matrix \<Rightarrow> int \<Rightarrow> int \<Rightarrow> py_error + real" where
  "getitem2 cM i j =
     (case norm_index (length cM) i of
        None \<Rightarrow> Inl IndexError
      | Some r \<Rightarrow>
          (case norm_index (length (cM ! r)) j of
             None \<Rightarrow> Inl IndexError
           | Some c \<Rightarrow> Inr (cM ! r ! c)))"

definition setitem2 :: "matrix \<Rightarrow> int \<Rightarrow> int \<Rightarrow> real \<Rightarrow> py_error + matrix" where
  "setitem2 cM i j v =
     (case norm_index (length cM) i of
        None \<Rightarrow> Inl IndexError
      | Some r \<Rightarrow>
          (case norm_index (length (cM ! r)) j of
             None \<Rightarrow> Inl IndexError
           | Some c \<Rightarrow> Inr (cM[r := (cM ! r)[c := v]])))"

text \<open>\<open>np.sum\<close> of a boolean array counts its true elements.\<close>

definition np_sum_bool :: "bool list \<Rightarrow> nat" where
  "np_sum_bool bs = length (filter (\<lambda>b. b) bs)"

text \<open>\<open>np.sum\<close> of a matrix adds all cells; \<open>np.trace\<close> adds the main diagonal.\<close>

definition np_sum :: "matrix \<Rightarrow> real" where
  "np_sum cM = sum_list (map sum_list cM)"

definition ncols :: "matrix \<Rightarrow> nat" where
  "ncols cM = (case cM of [] \<Rightarrow> 0 | row # _ \<Rightarrow> length row)"

definition np_trace :: "matrix \<Rightarrow> real" where
  "np_trace cM = sum_list (map (\<lambda>i. cM ! i ! i) [0..<min (length cM) (ncols cM)])"

subsection \<open>calcAccuracy\<close>

definition calcAccuracy :: "int list \<Rightarrow> int list \<Rightarrow> py_error + npfloat" where
  "calcAccuracy LPred LTrue =
     (if length LPred \<noteq> length LTrue
      then Inl (ValueError ''LPred and LTrue must be the same length.'')
      else
        let N = length LPred;
            comparison = map (\<lambda>(p, t). p = t) (zip LPred LTrue);
            trueCount = np_sum_bool comparison
        in Inr (true_divide (real trueCount) (real N)))"

subsection \<open>calcConfusionMatrix\<close>

text \<open>One pass of the loop body \<open>cM[pred,true] = cM[pred,true] + 1\<close>.\<close>

definition cm_step :: "matrix \<Rightarrow> int \<times> int \<Rightarrow> py_error + matrix" where
  "cm_step cM tp =
     (case tp of (true, pred) \<Rightarrow>
        (case getitem2 cM pred true of
           Inl e \<Rightarrow> Inl e
         | Inr v \<Rightarrow> setitem2 cM pred true (v + 1)))"

text \<open>The loop \<open>for true,pred in zip(LTrue,LPred)\<close>; an exception leaves it.\<close>

fun cm_loop :: "matrix \<Rightarrow> (int \<times> int) list \<Rightarrow> py_error + matrix" where
  "cm_loop cM [] = Inr cM"
| "cm_loop cM (tp # rest) =
     (case cm_step cM tp of
        Inl e \<Rightarrow> Inl e
      | Inr cM' \<Rightarrow> cm_loop cM' rest)"

definition calcConfusionMatrix :: "int list \<Rightarrow> int list \<Rightarrow> py_error + matrix" where
  "calcConfusionMatrix LPred LTrue =
     (let results = LPred @ LTrue;
          labels = np_unique results;
          classNum = length labels;
          cM = np_zeros classNum classNum
      in cm_loop cM (zip LTrue LPred))"

subsection \<open>calcAccuracyCM\<close>

text \<open>
  No operation of the body raises on a two-dimensional array: the function has no check
  and no failure branch, and always returns the value of the division.
\<close>

definition calcAccuracyCM :: "matrix \<Rightarrow> py_error + npfloat" where
  "calcAccuracyCM cM =
     (let trueSum = np_trace cM;
          N = np_sum cM;
          acc = true_divide trueSum N
      in Inr acc)"

subsection \<open>Notions used to state the properties\<close>

definition wf_mat :: "nat \<Rightarrow> matrix \<Rightarrow> bool" where
  "wf_mat K M \<longleftrightarrow> length M = K \<and> (\<forall>row \<in> set M. length row = K)"

definition inc_cell :: "matrix \<Rightarrow> nat \<Rightarrow> nat \<Rightarrow> matrix" where
  "inc_cell M r c = M[r := (M ! r)[c := M ! r ! c + 1]]"

definition in_bounds :: "nat \<Rightarrow> int \<Rightarrow> bool" where
  "in_bounds K i \<longleftrightarrow> - int K \<le> i \<and> i < int K"

definition wrap :: "nat \<Rightarrow> int \<Rightarrow> nat" where
  "wrap K i = (if 0 \<le> i then nat i else nat (i + int K))"

fun tally :: "nat \<Rightarrow> matrix \<Rightarrow> (int \<times> int) list \<Rightarrow> matrix" where
  "tally K M [] = M"
| "tally K M ((t, p) # ps) = tally K (inc_cell M (wrap K p) (wrap K t)) ps"

definition pairs_in_bounds :: "nat \<Rightarrow> (int \<times> int) list \<Rightarrow> bool" where
  "pairs_in_bounds K ps \<longleftrightarrow> (\<forall>(t, p) \<in> set ps. in_bounds K t \<and> in_bounds K p)"

definition classNum_of :: "int list \<Rightarrow> int list \<Rightarrow> nat" where
  "classNum_of LPred LTrue = length (np_unique (LPred @ LTrue))"

definition labels_are_indices :: "int list \<Rightarrow> int list \<Rightarrow> bool" where
  "labels_are_indices LPred LTrue \<longleftrightarrow>
     (\<forall>l \<in> set (LPred @ LTrue). 0 \<le> l \<and> l < int (classNum_of LPred LTrue))"

definition labels_in_bounds :: "int list \<Rightarrow> int list \<Rightarrow> bool" where
  "labels_in_bounds LPred LTrue \<longleftrightarrow>
     (\<forall>l \<in> set (LPred @ LTrue). in_bounds (classNum_of LPred LTrue) l)"

definition is_diagonal :: "matrix \<Rightarrow> bool" where
  "is_diagonal cM \<longleftrightarrow> (\<forall>r < length cM. \<forall>c < length (cM ! r). r \<noteq> c \<longrightarrow> cM ! r ! c = 0)"

text \<open>The labels that an int64 array can hold.\<close>

definition int64_labels :: "int list \<Rightarrow> bool" where
  "int64_labels xs \<longleftrightarrow> (\<forall>l \<in> set xs. - (2 ^ 63) \<le> l \<and> l < 2 ^ 63)"

text \<open>
  The matrix of counts written without the loop: the cell \<open>(r, c)\<close> holds the number of
  samples whose predicted label selects row \<open>r\<close> and whose true label selects column
  \<open>c\<close>, where a label \<open>l\<close> selects \<open>l\<close> itself, or \<open>l + K\<close> when it is negative.
\<close>

definition confusion_counts :: "int list \<Rightarrow> int list \<Rightarrow> matrix" where
  "confusion_counts LPred LTrue =
     (let K = classNum_of LPred LTrue
      in map (\<lambda>r. map (\<lambda>c. real (length (filter (\<lambda>(t, p). wrap K p = r \<and> wrap K t = c)
                                                   (zip LTrue LPred))))
                        [0..<K])
             [0..<K])"

text \<open>A square matrix of counts: every row as long as the matrix, no negative cell.\<close>

definition count_matrix :: "matrix \<Rightarrow> bool" where
  "count_matrix cM \<longleftrightarrow> (\<forall>row \<in> set cM. length row = length cM \<and> (\<forall>x \<in> set row. 0 \<le> x))"

section \<open>Properties\<close>

subsection \<open>Indexing and the loop\<close>

lemma norm_index_in_bounds: "in_bounds K i \<Longrightarrow> norm_index K i = Some (wrap K i)"
  by (auto simp: in_bounds_def norm_index_def wrap_def)

lemma norm_index_out: "\<not> in_bounds K i \<Longrightarrow> norm_index K i = None"
  by (auto simp: in_bounds_def norm_index_def)

lemma wrap_lt: "in_bounds K i \<Longrightarrow> wrap K i < K"
  by (auto simp: in_bounds_def wrap_def)

lemma wf_mat_zeros: "wf_mat K (np_zeros K K)"
  by (simp add: wf_mat_def np_zeros_def)

lemma wf_mat_row: "wf_mat K M \<Longrightarrow> r < K \<Longrightarrow> length (M ! r) = K"
  by (simp add: wf_mat_def)

lemma wf_mat_inc: "wf_mat K (inc_cell M r c)" if "wf_mat K M"
proof (cases "r < length M")
  case True
  then have "M ! r \<in> set M" by simp
  then show ?thesis
    using that set_update_subset_insert[of M r "(M ! r)[c := M ! r ! c + 1]"]
    by (auto simp: wf_mat_def inc_cell_def)
next
  case False
  then show ?thesis using that by (simp add: inc_cell_def list_update_beyond)
qed

lemma cm_step_ok:
  assumes "wf_mat K M" "in_bounds K p" "in_bounds K t"
  shows "cm_step M (t, p) = Inr (inc_cell M (wrap K p) (wrap K t))"
proof -
  have len: "length M = K" using assms(1) by (simp add: wf_mat_def)
  have row: "length (M ! wrap K p) = K"
    using assms(1,2) by (simp add: wf_mat_row wrap_lt)
  show ?thesis
    by (simp add: cm_step_def getitem2_def setitem2_def len row inc_cell_def
        norm_index_in_bounds[OF assms(2)] norm_index_in_bounds[OF assms(3)])
qed

lemma cm_step_err:
  assumes "wf_mat K M" "\<not> in_bounds K p \<or> \<not> in_bounds K t"
  shows "cm_step M (t, p) = Inl IndexError"
proof -
  have len: "length M = K" using assms(1) by (simp add: wf_mat_def)
  show ?thesis
  proof (cases "in_bounds K p")
    case False
    then show ?thesis
      by (simp add: cm_step_def getitem2_def len norm_index_out)
  next
    case True
    then have row: "length (M ! wrap K p) = K"
      using assms(1) by (simp add: wf_mat_row wrap_lt)
    from True assms(2) have "\<not> in_bounds K t" by simp
    then show ?thesis
      by (simp add: cm_step_def getitem2_def len row norm_index_out
          norm_index_in_bounds[OF True])
  qed
qed

lemma cm_loop_ok:
  "wf_mat K M \<Longrightarrow> \<forall>(t, p) \<in> set ps. in_bounds K t \<and> in_bounds K p \<Longrightarrow>
   cm_loop M ps = Inr (tally K M ps)"
proof (induction ps arbitrary: M)
  case Nil
  then show ?case by simp
next
  case (Cons a ps)
  obtain t p where a: "a = (t, p)" by (cases a)
  from Cons.prems(2) a have b: "in_bounds K t" "in_bounds K p" by auto
  have step: "cm_step M a = Inr (inc_cell M (wrap K p) (wrap K t))"
    unfolding a using Cons.prems(1) b(2) b(1) by (rule cm_step_ok)
  have "cm_loop (inc_cell M (wrap K p) (wrap K t)) ps
          = Inr (tally K (inc_cell M (wrap K p) (wrap K t)) ps)"
    using Cons.prems by (intro Cons.IH wf_mat_inc) auto
  then show ?case
    using step by (simp add: a)
qed

lemma cm_loop_err:
  "wf_mat K M \<Longrightarrow> \<exists>(t, p) \<in> set ps. \<not> in_bounds K t \<or> \<not> in_bounds K p \<Longrightarrow>
   cm_loop M ps = Inl IndexError"
proof (induction ps arbitrary: M)
  case Nil
  then show ?case by simp
next
  case (Cons a ps)
  obtain t p where a: "a = (t, p)" by (cases a)
  show ?case
  proof (cases "in_bounds K p \<and> in_bounds K t")
    case False
    then have "cm_step M a = Inl IndexError"
      unfolding a using Cons.prems(1) by (intro cm_step_err) auto
    then show ?thesis by simp
  next
    case True
    then have step: "cm_step M a = Inr (inc_cell M (wrap K p) (wrap K t))"
      unfolding a using Cons.prems(1) by (intro cm_step_ok) auto
    from True Cons.prems(2) a
    have "\<exists>(t, p) \<in> set ps. \<not> in_bounds K t \<or> \<not> in_bounds K p" by auto
    then have "cm_loop (inc_cell M (wrap K p) (wrap K t)) ps = Inl IndexError"
      using Cons.prems(1) by (intro Cons.IH wf_mat_inc)
    then show ?thesis by (simp add: step)
  qed
qed

lemma sum_list_update_real:
  fixes xs :: "real list"
  shows "i < length xs \<Longrightarrow> sum_list (xs[i := v]) = sum_list xs - xs ! i + v"
  by (induction xs arbitrary: i) (auto split: nat.splits)

lemma inc_cell_nth:
  assumes "wf_mat K M" "r < K" "c < K" "r' < K" "c' < K"
  shows "inc_cell M r c ! r' ! c' = M ! r' ! c' + (if r' = r \<and> c' = c then 1 else 0)"
proof -
  have len: "length M = K" using assms(1) by (simp add: wf_mat_def)
  have row: "length (M ! r) = K" using assms(1,2) by (rule wf_mat_row)
  show ?thesis
    using assms(2-5) by (simp add: inc_cell_def len row nth_list_update)
qed

lemma np_sum_inc:
  assumes "wf_mat K M" "r < K" "c < K"
  shows "np_sum (inc_cell M r c) = np_sum M + 1"
proof -
  have len: "length M = K" using assms(1) by (simp add: wf_mat_def)
  have row: "length (M ! r) = K" using assms(1,2) by (rule wf_mat_row)
  have "np_sum (inc_cell M r c)
          = sum_list ((map sum_list M)[r := sum_list ((M ! r)[c := M ! r ! c + 1])])"
    by (simp add: np_sum_def inc_cell_def map_update)
  also have "\<dots> = sum_list (map sum_list M) - sum_list (M ! r)
                    + sum_list ((M ! r)[c := M ! r ! c + 1])"
    using assms(2) by (simp add: sum_list_update_real len)
  also have "sum_list ((M ! r)[c := M ! r ! c + 1]) = sum_list (M ! r) + 1"
    using assms(3) by (simp add: sum_list_update_real row)
  finally show ?thesis by (simp add: np_sum_def)
qed

lemma ncols_wf: "wf_mat K M \<Longrightarrow> ncols M = K"
  by (cases M) (auto simp: wf_mat_def ncols_def)

lemma np_trace_wf:
  assumes "wf_mat K M"
  shows "np_trace M = (\<Sum>i<K. M ! i ! i)"
proof -
  have "length M = K" "ncols M = K"
    using assms by (simp_all add: ncols_wf wf_mat_def)
  then show ?thesis
    by (simp add: np_trace_def interv_sum_list_conv_sum_set_nat atLeast0LessThan)
qed

lemma np_trace_inc:
  assumes "wf_mat K M" "r < K" "c < K"
  shows "np_trace (inc_cell M r c) = np_trace M + (if r = c then 1 else 0)"
proof -
  have "np_trace (inc_cell M r c) = (\<Sum>i<K. inc_cell M r c ! i ! i)"
    using assms(1) by (intro np_trace_wf wf_mat_inc)
  also have "\<dots> = (\<Sum>i<K. M ! i ! i + (if i = r \<and> i = c then 1 else 0))"
    using assms by (intro sum.cong refl) (simp add: inc_cell_nth)
  also have "\<dots> = (\<Sum>i<K. M ! i ! i) + (\<Sum>i<K. if i = r \<and> i = c then 1 else 0)"
    by (simp add: sum.distrib)
  also have "(\<Sum>i<K. if i = r \<and> i = c then 1 else 0) = (if r = c then 1 else (0::real))"
  proof (cases "r = c")
    case True
    then have "(\<Sum>i<K. if i = r \<and> i = c then 1 else 0) = (\<Sum>i<K. if i = r then 1 else (0::real))"
      by (intro sum.cong) auto
    then show ?thesis using True assms(2) by simp
  next
    case False
    then have "(\<Sum>i<K. if i = r \<and> i = c then 1 else 0) = (\<Sum>i<K. (0::real))"
      by (intro sum.cong) auto
    then show ?thesis using False by simp
  qed
  finally show ?thesis using assms(1) by (simp add: np_trace_wf)
qed

lemma pairs_in_bounds_Cons:
  "pairs_in_bounds K ((t, p) # ps) \<longleftrightarrow> in_bounds K t \<and> in_bounds K p \<and> pairs_in_bounds K ps"
  by (simp add: pairs_in_bounds_def)

lemma wf_mat_tally: "wf_mat K M \<Longrightarrow> wf_mat K (tally K M ps)"
  by (induction K M ps rule: tally.induct) (simp_all add: wf_mat_inc)

lemma np_sum_tally:
  "wf_mat K M \<Longrightarrow> pairs_in_bounds K ps \<Longrightarrow> np_sum (tally K M ps) = np_sum M + real (length ps)"
  by (induction K M ps rule: tally.induct)
     (simp_all add: wf_mat_inc np_sum_inc wrap_lt pairs_in_bounds_Cons)

lemma np_trace_tally:
  "wf_mat K M \<Longrightarrow> pairs_in_bounds K ps \<Longrightarrow>
   np_trace (tally K M ps)
     = np_trace M + real (length (filter (\<lambda>(t, p). wrap K p = wrap K t) ps))"
  by (induction K M ps rule: tally.induct)
     (simp_all add: wf_mat_inc np_trace_inc wrap_lt pairs_in_bounds_Cons)

lemma tally_nth:
  "wf_mat K M \<Longrightarrow> pairs_in_bounds K ps \<Longrightarrow> r < K \<Longrightarrow> c < K \<Longrightarrow>
   tally K M ps ! r ! c
     = M ! r ! c + real (length (filter (\<lambda>(t, p). wrap K p = r \<and> wrap K t = c) ps))"
  by (induction K M ps rule: tally.induct)
     (simp_all add: wf_mat_inc inc_cell_nth wrap_lt pairs_in_bounds_Cons)

lemma np_unique_sorted_list: "np_unique xs = sorted_list_of_set (set xs)"
  by (simp add: np_unique_def sorted_list_of_set_sort_remdups)

lemma classNum_of_card: "classNum_of P T = card (set (P @ T))"
  by (simp add: classNum_of_def np_unique_def length_remdups_card_conv del: set_append)

lemma labels_are_indices_set:
  assumes "labels_are_indices P T"
  shows "set (P @ T) = int ` {0..<classNum_of P T}"
proof (rule card_subset_eq)
  show "finite (int ` {0..<classNum_of P T})" by simp
  show "set (P @ T) \<subseteq> int ` {0..<classNum_of P T}"
  proof
    fix l assume "l \<in> set (P @ T)"
    with assms have "0 \<le> l" "l < int (classNum_of P T)"
      by (auto simp: labels_are_indices_def)
    then have "nat l \<in> {0..<classNum_of P T}" "l = int (nat l)" by auto
    then show "l \<in> int ` {0..<classNum_of P T}" by blast
  qed
  show "card (set (P @ T)) = card (int ` {0..<classNum_of P T})"
    by (simp add: card_image classNum_of_card del: set_append)
qed

lemma np_unique_indices:
  assumes "labels_are_indices P T"
  shows "np_unique (P @ T) = map int [0..<classNum_of P T]"
proof -
  have "sorted (map int [0..<classNum_of P T])"
    by (simp add: sorted_map sorted_wrt_iff_nth_less)
  moreover have "distinct (map int [0..<classNum_of P T])"
    by (simp add: distinct_map)
  moreover have "set (map int [0..<classNum_of P T]) = set (P @ T)"
    using labels_are_indices_set[OF assms] by simp
  ultimately show ?thesis
    unfolding np_unique_sorted_list
    by (metis sorted_list_of_set.idem_if_sorted_distinct)
qed

lemma labels_are_indices_in_bounds: "labels_are_indices P T \<Longrightarrow> labels_in_bounds P T"
  unfolding labels_are_indices_def labels_in_bounds_def in_bounds_def
proof
  fix l assume "\<forall>l\<in>set (P @ T). 0 \<le> l \<and> l < int (classNum_of P T)" "l \<in> set (P @ T)"
  then have "0 \<le> l \<and> l < int (classNum_of P T)" by blast
  then show "- int (classNum_of P T) \<le> l \<and> l < int (classNum_of P T)" by linarith
qed

lemma labels_in_bounds_pairs:
  assumes "labels_in_bounds P T"
  shows "pairs_in_bounds (classNum_of P T) (zip T P)"
  unfolding pairs_in_bounds_def
proof (clarify, rule conjI)
  fix t p assume "(t, p) \<in> set (zip T P)"
  then have "t \<in> set (P @ T)" "p \<in> set (P @ T)"
    by (auto dest: set_zip_leftD set_zip_rightD)
  with assms show "in_bounds (classNum_of P T) t" "in_bounds (classNum_of P T) p"
    by (auto simp: labels_in_bounds_def)
qed

lemma calcConfusionMatrix_in_bounds:
  assumes "labels_in_bounds P T"
  shows "calcConfusionMatrix P T
           = Inr (tally (classNum_of P T) (np_zeros (classNum_of P T) (classNum_of P T)) (zip T P))"
proof -
  have "pairs_in_bounds (classNum_of P T) (zip T P)"
    using assms by (rule labels_in_bounds_pairs)
  then have "cm_loop (np_zeros (classNum_of P T) (classNum_of P T)) (zip T P)
               = Inr (tally (classNum_of P T) (np_zeros (classNum_of P T) (classNum_of P T)) (zip T P))"
    unfolding pairs_in_bounds_def by (intro cm_loop_ok wf_mat_zeros)
  then show ?thesis
    by (simp add: calcConfusionMatrix_def classNum_of_def Let_def)
qed

lemma np_sum_zeros: "np_sum (np_zeros n m) = 0"
  by (simp add: np_sum_def np_zeros_def sum_list_replicate)

lemma np_zeros_nth: "r < n \<Longrightarrow> c < m \<Longrightarrow> np_zeros n m ! r ! c = 0"
  by (simp add: np_zeros_def)

lemma np_trace_zeros: "np_trace (np_zeros K K) = 0"
  by (simp add: np_trace_wf[OF wf_mat_zeros] np_zeros_nth)

lemma cm_step_error: "cm_step M tp = Inl e \<Longrightarrow> e = IndexError"
  by (auto simp: cm_step_def getitem2_def setitem2_def split: prod.splits option.splits sum.splits)

lemma cm_loop_error: "cm_loop M ps = Inl e \<Longrightarrow> e = IndexError"
  by (induction ps arbitrary: M) (auto split: sum.splits dest: cm_step_error)

lemma np_sum_bool_map: "np_sum_bool (map f xs) = length (filter f xs)"
  by (simp add: np_sum_bool_def filter_map comp_def)

lemma length_filter_zip_card:
  "length (filter f (zip xs ys))
     = card {i. i < length xs \<and> i < length ys \<and> f (xs ! i, ys ! i)}"
proof -
  have "{i. i < length (zip xs ys) \<and> f (zip xs ys ! i)}
          = {i. i < length xs \<and> i < length ys \<and> f (xs ! i, ys ! i)}"
    by auto
  then show ?thesis by (simp add: length_filter_conv_card)
qed

subsection \<open>The concrete scenario\<close>

text \<open>
  Claim C8. For \<open>P = [0,1,1,0,1]\<close> and \<open>T = [0,1,0,0,1]\<close>, \<open>calcAccuracy\<close> returns
  \<open>4/5\<close>, \<open>calcConfusionMatrix\<close> returns \<open>[[2,0],[1,2]]\<close> (rows are predicted labels,
  columns true labels), whose trace is 4 and whose sum is 5, and \<open>calcAccuracyCM\<close> of that
  matrix returns \<open>4/5\<close> as well.
\<close>

theorem scenario_values:
  "calcAccuracy [0, 1, 1, 0, 1] [0, 1, 0, 0, 1] = Inr (Fin (4 / 5)) \<and>
   calcConfusionMatrix [0, 1, 1, 0, 1] [0, 1, 0, 0, 1] = Inr [[2, 0], [1, 2]] \<and>
   np_trace [[2, 0], [1, 2]] = 4 \<and>
   np_sum [[2, 0], [1, 2]] = 5 \<and>
   calcAccuracyCM [[2, 0], [1, 2]] = Inr (Fin (4 / 5))"
  by code_simp

subsection \<open>calcAccuracy: the length check and the value\<close>

text \<open>
  Claim C4. \<open>calcAccuracy\<close> raises exactly when the two lengths differ; the error it
  raises is the ValueError of the length check and no other, and it reaches the caller
  as the result of the call: otherwise the call returns a value.
\<close>

theorem calcAccuracy_raises_iff:
  "((\<exists>e. calcAccuracy P T = Inl e) \<longleftrightarrow> length P \<noteq> length T) \<and>
   (calcAccuracy P T = Inl (ValueError ''LPred and LTrue must be the same length.'') \<or>
    (\<exists>a. calcAccuracy P T = Inr a))"
  by (simp add: calcAccuracy_def Let_def)

theorem calcAccuracy_raises_iff_witness:
  "(\<exists>e. calcAccuracy [0, 1] [0, 1, 1] = Inl e) \<and> length [0, 1 :: int] \<noteq> length [0, 1, 1 :: int] \<and>
   (\<exists>a. calcAccuracy [0, 1] [0, 1] = Inr a) \<and> length [0, 1 :: int] = length [0, 1 :: int]"
  using calcAccuracy_raises_iff [of "[0, 1]" "[0, 1, 1]"] calcAccuracy_raises_iff [of "[0, 1]" "[0, 1]"]
  by fastforce

text \<open>The number of true elements of \<open>LPred == LTrue\<close> is the number of agreeing positions.\<close>

lemma agree_count:
  assumes "length P = length T"
  shows "np_sum_bool (map (\<lambda>(p, t). p = t) (zip P T)) = card {i. i < length P \<and> P ! i = T ! i}"
proof -
  have "{i. i < length P \<and> i < length T \<and> (case (P ! i, T ! i) of (p, t) \<Rightarrow> p = t)}
          = {i. i < length P \<and> P ! i = T ! i}"
    using assms by auto
  then show ?thesis
    by (simp add: np_sum_bool_map length_filter_zip_card)
qed




subsection \<open>What calcConfusionMatrix returns\<close>

text \<open>
  The cell of a sample is chosen by the label values themselves (\<open>cM[pred,true]\<close>), not by
  their positions in \<open>labels\<close>, of which only the length is used. A matrix is returned
  when every label of a zipped pair is a valid index of an axis of size \<open>classNum\<close>.
\<close>

lemma calcConfusionMatrix_shape:
  assumes "labels_in_bounds P T"
  shows "\<exists>M. calcConfusionMatrix P T = Inr M \<and> wf_mat (classNum_of P T) M \<and>
             np_sum M = real (min (length P) (length T))"
proof -
  let ?K = "classNum_of P T"
  let ?M = "tally ?K (np_zeros ?K ?K) (zip T P)"
  have "calcConfusionMatrix P T = Inr ?M"
    using assms by (rule calcConfusionMatrix_in_bounds)
  moreover have "wf_mat ?K ?M"
    by (intro wf_mat_tally wf_mat_zeros)
  moreover have "np_sum ?M = real (min (length P) (length T))"
    using np_sum_tally[OF wf_mat_zeros labels_in_bounds_pairs[OF assms]]
    by (simp add: np_sum_zeros min.commute)
  ultimately show ?thesis by blast
qed

lemma wrap_eq_index: "0 \<le> l \<Longrightarrow> wrap K l = r \<longleftrightarrow> l = int r"
  by (auto simp: wrap_def)

lemma calcConfusionMatrix_cells:
  assumes "labels_are_indices P T"
  shows "\<exists>M. calcConfusionMatrix P T = Inr M \<and> wf_mat (classNum_of P T) M \<and>
             (\<forall>r < classNum_of P T. \<forall>c < classNum_of P T.
                M ! r ! c = real (card {i. i < length P \<and> i < length T \<and>
                                          P ! i = int r \<and> T ! i = int c}))"
proof -
  let ?K = "classNum_of P T"
  let ?M = "tally ?K (np_zeros ?K ?K) (zip T P)"
  have inb: "labels_in_bounds P T"
    using assms by (rule labels_are_indices_in_bounds)
  have run: "calcConfusionMatrix P T = Inr ?M"
    using inb by (rule calcConfusionMatrix_in_bounds)
  have wf: "wf_mat ?K ?M"
    by (intro wf_mat_tally wf_mat_zeros)
  have nonneg: "0 \<le> t \<and> 0 \<le> p" if "(t, p) \<in> set (zip T P)" for t p
  proof -
    from that have "t \<in> set (P @ T)" "p \<in> set (P @ T)"
      by (auto dest: set_zip_leftD set_zip_rightD)
    with assms show ?thesis by (auto simp: labels_are_indices_def)
  qed
  have cell: "?M ! r ! c = real (card {i. i < length P \<and> i < length T \<and>
                                        P ! i = int r \<and> T ! i = int c})"
    if "r < ?K" "c < ?K" for r c
  proof -
    have "?M ! r ! c
            = real (length (filter (\<lambda>(t, p). wrap ?K p = r \<and> wrap ?K t = c) (zip T P)))"
      using tally_nth[OF wf_mat_zeros labels_in_bounds_pairs[OF inb] that]
      by (simp add: np_zeros_nth that)
    also have "filter (\<lambda>(t, p). wrap ?K p = r \<and> wrap ?K t = c) (zip T P)
                 = filter (\<lambda>(t, p). p = int r \<and> t = int c) (zip T P)"
    proof (rule filter_cong[OF refl])
      fix x assume x: "x \<in> set (zip T P)"
      obtain t p where tp: "x = (t, p)" by (cases x)
      from x tp nonneg have "0 \<le> t" "0 \<le> p" by auto
      then show "(case x of (t, p) \<Rightarrow> wrap ?K p = r \<and> wrap ?K t = c)
                   = (case x of (t, p) \<Rightarrow> p = int r \<and> t = int c)"
        by (simp add: tp wrap_eq_index)
    qed
    also have "length \<dots> = card {i. i < length T \<and> i < length P \<and>
                 (case (T ! i, P ! i) of (t, p) \<Rightarrow> p = int r \<and> t = int c)}"
      by (rule length_filter_zip_card)
    also have "{i. i < length T \<and> i < length P \<and>
                 (case (T ! i, P ! i) of (t, p) \<Rightarrow> p = int r \<and> t = int c)}
               = {i. i < length P \<and> i < length T \<and> P ! i = int r \<and> T ! i = int c}"
      by auto
    finally show ?thesis .
  qed
  from run wf cell show ?thesis by blast
qed

lemma length_filter_swap:
  "length (filter (\<lambda>(t, p). p = t) (zip T P)) = length (filter (\<lambda>(p, t). p = t) (zip P T))"
proof -
  have "zip T P = map (\<lambda>(p, t). (t, p)) (zip P T)"
    by (rule zip_commute)
  then have "length (filter (\<lambda>(t, p). p = t) (zip T P))
               = length (filter (\<lambda>(t, p). p = t) (map (\<lambda>(p, t). (t, p)) (zip P T)))"
    by simp
  also have "\<dots> = length (filter (\<lambda>(p, t). p = t) (zip P T))"
    by (simp add: filter_map comp_def case_prod_unfold)
  finally show ?thesis .
qed

lemma calcConfusionMatrix_trace:
  assumes "labels_are_indices P T"
  shows "\<exists>M. calcConfusionMatrix P T = Inr M \<and>
             np_sum M = real (min (length P) (length T)) \<and>
             np_trace M = real (length (filter (\<lambda>(p, t). p = t) (zip P T)))"
proof -
  let ?K = "classNum_of P T"
  let ?M = "tally ?K (np_zeros ?K ?K) (zip T P)"
  have inb: "labels_in_bounds P T"
    using assms by (rule labels_are_indices_in_bounds)
  have run: "calcConfusionMatrix P T = Inr ?M"
    using inb by (rule calcConfusionMatrix_in_bounds)
  have total: "np_sum ?M = real (min (length P) (length T))"
    using np_sum_tally[OF wf_mat_zeros labels_in_bounds_pairs[OF inb]]
    by (simp add: np_sum_zeros min.commute)
  have nonneg: "0 \<le> t \<and> 0 \<le> p" if "(t, p) \<in> set (zip T P)" for t p
  proof -
    from that have "t \<in> set (P @ T)" "p \<in> set (P @ T)"
      by (auto dest: set_zip_leftD set_zip_rightD)
    with assms show ?thesis by (auto simp: labels_are_indices_def)
  qed
  have "np_trace ?M = real (length (filter (\<lambda>(t, p). wrap ?K p = wrap ?K t) (zip T P)))"
    using np_trace_tally[OF wf_mat_zeros labels_in_bounds_pairs[OF inb]]
    by (simp add: np_trace_zeros)
  also have "filter (\<lambda>(t, p). wrap ?K p = wrap ?K t) (zip T P)
               = filter (\<lambda>(t, p). p = t) (zip T P)"
  proof (rule filter_cong[OF refl])
    fix x assume x: "x \<in> set (zip T P)"
    obtain t p where tp: "x = (t, p)" by (cases x)
    from x tp nonneg have "0 \<le> t" "0 \<le> p" by auto
    then show "(case x of (t, p) \<Rightarrow> wrap ?K p = wrap ?K t) = (case x of (t, p) \<Rightarrow> p = t)"
      by (auto simp: tp wrap_def)
  qed
  also have "length (filter (\<lambda>(t, p). p = t) (zip T P))
               = length (filter (\<lambda>(p, t). p = t) (zip P T))"
    by (rule length_filter_swap)
  finally have "np_trace ?M = real (length (filter (\<lambda>(p, t). p = t) (zip P T)))" .
  with run total show ?thesis by blast
qed


text \<open>
  Conversely, one int64 label of equal-length sequences that is no valid index makes the
  call raise IndexError: the condition on the labels below cannot be dropped.
\<close>

lemma calcConfusionMatrix_out_of_bounds:
  assumes "length P = length T" and "\<not> labels_in_bounds P T"
  shows "calcConfusionMatrix P T = Inl IndexError"
proof -
  let ?K = "classNum_of P T"
  from assms(2) obtain l where l: "l \<in> set P \<union> set T" "\<not> in_bounds ?K l"
    by (auto simp: labels_in_bounds_def)
  then obtain i where i: "i < length P" "P ! i = l \<or> T ! i = l"
    using assms(1) by (auto simp: in_set_conv_nth)
  then have "(T ! i, P ! i) \<in> set (zip T P)"
    using assms(1) by (auto simp: set_zip)
  moreover have "\<not> in_bounds ?K (T ! i) \<or> \<not> in_bounds ?K (P ! i)"
    using i(2) l(2) by auto
  ultimately have "\<exists>(t, p) \<in> set (zip T P). \<not> in_bounds ?K t \<or> \<not> in_bounds ?K p"
    by blast
  with wf_mat_zeros have "cm_loop (np_zeros ?K ?K) (zip T P) = Inl IndexError"
    by (rule cm_loop_err)
  then show ?thesis
    by (simp add: calcConfusionMatrix_def classNum_of_def Let_def)
qed

subsection \<open>The sum of the confusion matrix\<close>

text \<open>
  Claim C3, as stated, fails: for the equal-length sequences \<open>P = T = [1, 2]\<close> there are
  two classes, the label 2 is no index of a \<open>2 \<times> 2\<close> array, and the call raises
  IndexError, so that no matrix with sum 2 is returned.
\<close>

theorem confusion_matrix_total_counterexample:
  "length [1, 2 :: int] = length [1, 2 :: int] \<and>
   calcConfusionMatrix [1, 2] [1, 2] = Inl IndexError \<and>
   \<not> (\<exists>M. calcConfusionMatrix [1, 2] [1, 2] = Inr M \<and> np_sum M = real (length [1, 2 :: int]))"
proof -
  have "calcConfusionMatrix [1, 2] [1, 2] = Inl IndexError" by code_simp
  then show ?thesis by simp
qed

text \<open>
  Claim C3, amended. For two label sequences of the same length \<open>N\<close> whose labels are all
  valid indices of an axis of size \<open>K\<close> (\<open>-K \<le> l < K\<close>, which holds when the labels are
  \<open>0, \<dots>, K-1\<close>), \<open>calcConfusionMatrix\<close> returns a matrix and the sum of its entries
  is \<open>N\<close>.
\<close>

theorem confusion_matrix_total:
  assumes "length P = length T" and "labels_in_bounds P T"
  shows "\<exists>M. calcConfusionMatrix P T = Inr M \<and> np_sum M = real (length P)"
  using calcConfusionMatrix_shape[OF assms(2)] assms(1) by auto

theorem confusion_matrix_total_witness:
  "length [0, 1, 1, 0, 1 :: int] = length [0, 1, 0, 0, 1 :: int] \<and>
   labels_in_bounds [0, 1, 1, 0, 1] [0, 1, 0, 0, 1] \<and>
   (\<exists>M. calcConfusionMatrix [0, 1, 1, 0, 1] [0, 1, 0, 0, 1] = Inr M \<and>
        np_sum M = real (length [0, 1, 1, 0, 1 :: int]))"
proof -
  have h: "labels_in_bounds [0, 1, 1, 0, 1] [0, 1, 0, 0, 1]" by code_simp
  have l: "length [0, 1, 1, 0, 1 :: int] = length [0, 1, 0, 0, 1 :: int]" by simp
  from confusion_matrix_total [OF l h] h l show ?thesis by blast
qed

text \<open>
  Claim C10. \<open>calcConfusionMatrix\<close> never raises the ValueError of a length check; when
  all labels are among \<open>0, \<dots>, K-1\<close> it returns a matrix whose entries add up to the
  smaller of the two lengths, whether or not the lengths agree.
\<close>

theorem confusion_matrix_unequal_lengths:
  "(\<forall>msg. calcConfusionMatrix P T \<noteq> Inl (ValueError msg)) \<and>
   (labels_are_indices P T \<longrightarrow>
      (\<exists>M. calcConfusionMatrix P T = Inr M \<and> np_sum M = real (min (length P) (length T))))"
proof
  show "\<forall>msg. calcConfusionMatrix P T \<noteq> Inl (ValueError msg)"
    by (auto simp: calcConfusionMatrix_def Let_def dest: cm_loop_error)
  show "labels_are_indices P T \<longrightarrow>
      (\<exists>M. calcConfusionMatrix P T = Inr M \<and> np_sum M = real (min (length P) (length T)))"
    using calcConfusionMatrix_shape[OF labels_are_indices_in_bounds] by blast
qed

theorem confusion_matrix_unequal_lengths_witness:
  "length [0, 1, 1 :: int] \<noteq> length [0 :: int] \<and>
   labels_are_indices [0, 1, 1] [0] \<and>
   (\<exists>M. calcConfusionMatrix [0, 1, 1] [0] = Inr M \<and>
        np_sum M = real (min (length [0, 1, 1 :: int]) (length [0 :: int])))"
proof -
  have h: "labels_are_indices [0, 1, 1] [0]" by code_simp
  from confusion_matrix_unequal_lengths [of "[0, 1, 1]" "[0]"] h show ?thesis by simp
qed

subsection \<open>The cells of the confusion matrix\<close>

text \<open>
  Claim C2, as stated, fails. For \<open>P = T = [1, 2]\<close> no matrix is returned. For
  \<open>P = T = [-1, 0, 0]\<close> the sorted labels are \<open>[-1, 0]\<close>, so the cell \<open>(0, 0)\<close> should
  count the one sample labelled \<open>-1\<close>; the index \<open>-1\<close> counts from the end, and the
  cell \<open>(0, 0)\<close> holds the two samples labelled \<open>0\<close>.
\<close>

theorem confusion_matrix_cells_counterexample:
  "length [1, 2 :: int] = length [1, 2 :: int] \<and>
   \<not> (\<exists>M. calcConfusionMatrix [1, 2] [1, 2] = Inr M) \<and>
   np_unique ([-1, 0, 0] @ [-1, 0, 0]) = [-1, 0] \<and>
   calcConfusionMatrix [-1, 0, 0] [-1, 0, 0] = Inr [[2, 0], [0, 1]]"
proof -
  have "calcConfusionMatrix [1, 2] [1, 2] = Inl IndexError" by code_simp
  moreover have "np_unique ([-1, 0, 0] @ [-1, 0, 0]) = [-1, 0]" by code_simp
  moreover have "calcConfusionMatrix [-1, 0, 0] [-1, 0, 0] = Inr [[2, 0], [0, 1]]" by code_simp
  ultimately show ?thesis by simp
qed

text \<open>
  Claim C2, amended. For two label sequences of the same length whose labels are all among
  \<open>0, \<dots>, K-1\<close>, where \<open>K\<close> is the number of distinct labels of both sequences,
  \<open>calcConfusionMatrix\<close> returns a \<open>K \<times> K\<close> matrix whose entry \<open>(r, c)\<close> is the number
  of samples whose predicted label is the \<open>r\<close>-th and whose true label is the \<open>c\<close>-th
  label in sorted order.
\<close>

theorem confusion_matrix_cells:
  assumes "length P = length T" and "labels_are_indices P T"
  shows "classNum_of P T = card (set P \<union> set T) \<and>
         (\<exists>M. calcConfusionMatrix P T = Inr M \<and>
              length M = classNum_of P T \<and>
              (\<forall>row \<in> set M. length row = classNum_of P T) \<and>
              (\<forall>r < classNum_of P T. \<forall>c < classNum_of P T.
                 M ! r ! c = real (card {i. i < length P \<and>
                                           P ! i = np_unique (P @ T) ! r \<and>
                                           T ! i = np_unique (P @ T) ! c})))"
proof
  show "classNum_of P T = card (set P \<union> set T)"
    by (simp add: classNum_of_card)
  let ?K = "classNum_of P T"
  obtain M where run: "calcConfusionMatrix P T = Inr M" and wf: "wf_mat ?K M"
    and cells: "\<forall>r < ?K. \<forall>c < ?K.
                  M ! r ! c = real (card {i. i < length P \<and> i < length T \<and>
                                           P ! i = int r \<and> T ! i = int c})"
    using calcConfusionMatrix_cells[OF assms(2)] by blast
  have lab: "np_unique (P @ T) ! r = int r" if "r < ?K" for r
    using that by (simp add: np_unique_indices[OF assms(2)])
  have "M ! r ! c = real (card {i. i < length P \<and> P ! i = np_unique (P @ T) ! r \<and>
                                    T ! i = np_unique (P @ T) ! c})"
    if "r < ?K" "c < ?K" for r c
    using cells that assms(1) by (simp add: lab)
  with run wf show "\<exists>M. calcConfusionMatrix P T = Inr M \<and>
              length M = ?K \<and> (\<forall>row \<in> set M. length row = ?K) \<and>
              (\<forall>r < ?K. \<forall>c < ?K.
                 M ! r ! c = real (card {i. i < length P \<and>
                                           P ! i = np_unique (P @ T) ! r \<and>
                                           T ! i = np_unique (P @ T) ! c}))"
    unfolding wf_mat_def by blast
qed

theorem confusion_matrix_cells_witness:
  "length [0, 1, 1, 0, 1 :: int] = length [0, 1, 0, 0, 1 :: int] \<and>
   labels_are_indices [0, 1, 1, 0, 1] [0, 1, 0, 0, 1] \<and>
   classNum_of [0, 1, 1, 0, 1] [0, 1, 0, 0, 1] = card (set [0, 1, 1, 0, 1] \<union> set [0, 1, 0, 0, 1 :: int]) \<and>
   (\<exists>M. calcConfusionMatrix [0, 1, 1, 0, 1] [0, 1, 0, 0, 1] = Inr M \<and>
        length M = classNum_of [0, 1, 1, 0, 1] [0, 1, 0, 0, 1])"
proof -
  have h: "labels_are_indices [0, 1, 1, 0, 1] [0, 1, 0, 0, 1]" by code_simp
  have l: "length [0, 1, 1, 0, 1 :: int] = length [0, 1, 0, 0, 1 :: int]" by simp
  from confusion_matrix_cells [OF l h] h l show ?thesis by blast
qed

subsection \<open>The two accuracies\<close>

text \<open>
  Claim C1, as stated, fails. For \<open>P = [-1, 1, 1]\<close> and \<open>T = [1, -1, 1]\<close> the direct
  accuracy is \<open>1/3\<close>, while both labels select row and column 1 of the \<open>2 \<times> 2\<close>
  matrix, whose accuracy is 1. For \<open>P = T = [1, 2]\<close> the direct accuracy is 1 and the
  matrix is not built at all.
\<close>

theorem accuracy_consistency_counterexample:
  "length [-1, 1, 1 :: int] = length [1, -1, 1 :: int] \<and>
   calcAccuracy [-1, 1, 1] [1, -1, 1] = Inr (Fin (1 / 3)) \<and>
   calcConfusionMatrix [-1, 1, 1] [1, -1, 1] = Inr [[0, 0], [0, 3]] \<and>
   calcAccuracyCM [[0, 0], [0, 3]] = Inr (Fin 1) \<and>
   calcAccuracy [1, 2] [1, 2] = Inr (Fin 1) \<and>
   calcConfusionMatrix [1, 2] [1, 2] = Inl IndexError"
  by code_simp

text \<open>
  Claim C1, amended. For two label sequences of the same length whose labels are all among
  \<open>0, \<dots>, K-1\<close>, the accuracy computed from the labels is the accuracy computed from
  the confusion matrix of those labels. Floats are exact reals here; both sides divide the
  same two whole numbers, and for empty sequences both are \<open>nan\<close>.
\<close>

theorem accuracy_consistency:
  assumes "length P = length T" and "labels_are_indices P T"
  shows "\<exists>M acc. calcConfusionMatrix P T = Inr M \<and>
                 calcAccuracyCM M = Inr acc \<and>
                 calcAccuracy P T = Inr acc"
proof -
  obtain M where run: "calcConfusionMatrix P T = Inr M"
    and total: "np_sum M = real (min (length P) (length T))"
    and diag: "np_trace M = real (length (filter (\<lambda>(p, t). p = t) (zip P T)))"
    using calcConfusionMatrix_trace[OF assms(2)] by blast
  let ?k = "length (filter (\<lambda>(p, t). p = t) (zip P T))"
  have "calcAccuracyCM M = Inr (true_divide (real ?k) (real (length P)))"
    using total diag assms(1) by (simp add: calcAccuracyCM_def Let_def)
  moreover have "calcAccuracy P T = Inr (true_divide (real ?k) (real (length P)))"
    using assms(1) by (simp add: calcAccuracy_def Let_def np_sum_bool_map)
  ultimately show ?thesis using run by blast
qed

theorem accuracy_consistency_witness:
  "length [0, 1, 1, 0, 1 :: int] = length [0, 1, 0, 0, 1 :: int] \<and>
   labels_are_indices [0, 1, 1, 0, 1] [0, 1, 0, 0, 1] \<and>
   (\<exists>M acc. calcConfusionMatrix [0, 1, 1, 0, 1] [0, 1, 0, 0, 1] = Inr M \<and>
             calcAccuracyCM M = Inr acc \<and>
             calcAccuracy [0, 1, 1, 0, 1] [0, 1, 0, 0, 1] = Inr acc)"
proof -
  have h: "labels_are_indices [0, 1, 1, 0, 1] [0, 1, 0, 0, 1]" by code_simp
  have l: "length [0, 1, 1, 0, 1 :: int] = length [0, 1, 0, 0, 1 :: int]" by simp
  from accuracy_consistency [OF l h] h l show ?thesis by blast
qed

subsection \<open>Identical inputs\<close>

text \<open>
  Claim C7, as stated, fails: for the empty sequence \<open>calcAccuracy\<close> returns \<open>nan\<close>, the
  value of \<open>0/0\<close>, and not 1; and for \<open>P = T = [1, 2]\<close> \<open>calcConfusionMatrix\<close> raises
  IndexError instead of returning a diagonal matrix.
\<close>

theorem identical_inputs_counterexample:
  "calcAccuracy [] [] = Inr NaN \<and>
   calcAccuracy [] [] \<noteq> Inr (Fin 1) \<and>
   calcConfusionMatrix [1, 2] [1, 2] = Inl IndexError"
  by code_simp

lemma zip_same_eq: "(t, p) \<in> set (zip P P) \<Longrightarrow> t = p"
  by (simp add: zip_same)

text \<open>
  Claim C7, amended. For every non-empty label sequence \<open>P\<close> whose labels are valid indices
  of an axis of size \<open>K\<close>, \<open>calcAccuracy(P, P)\<close> is exactly 1 and
  \<open>calcConfusionMatrix(P, P)\<close> is a diagonal matrix.
\<close>

theorem identical_inputs:
  assumes "P \<noteq> []" and "labels_in_bounds P P"
  shows "calcAccuracy P P = Inr (Fin 1) \<and>
         (\<exists>M. calcConfusionMatrix P P = Inr M \<and> is_diagonal M)"
proof
  have "np_sum_bool (map (\<lambda>(p, t). p = t) (zip P P)) = card {i. i < length P \<and> P ! i = P ! i}"
    by (rule agree_count) simp
  then have "np_sum_bool (map (\<lambda>(p, t). p = t) (zip P P)) = length P" by simp
  then have "calcAccuracy P P = Inr (true_divide (real (length P)) (real (length P)))"
    by (simp add: calcAccuracy_def Let_def)
  moreover have "real (length P) \<noteq> 0" using assms(1) by simp
  ultimately show "calcAccuracy P P = Inr (Fin 1)"
    by (simp add: true_divide_def)
next
  let ?K = "classNum_of P P"
  let ?M = "tally ?K (np_zeros ?K ?K) (zip P P)"
  have run: "calcConfusionMatrix P P = Inr ?M"
    using assms(2) by (rule calcConfusionMatrix_in_bounds)
  have wf: "wf_mat ?K ?M"
    by (intro wf_mat_tally wf_mat_zeros)
  have off: "?M ! r ! c = 0" if "r < ?K" "c < ?K" "r \<noteq> c" for r c
  proof -
    have "filter (\<lambda>(t, p). wrap ?K p = r \<and> wrap ?K t = c) (zip P P) = []"
      using that(3) by (auto simp: filter_empty_conv dest: zip_same_eq)
    then show ?thesis
      using tally_nth[OF wf_mat_zeros labels_in_bounds_pairs[OF assms(2)] that(1,2)]
      by (simp add: np_zeros_nth that)
  qed
  have "is_diagonal ?M"
    unfolding is_diagonal_def
  proof (intro allI impI)
    fix r c assume r: "r < length ?M" and c: "c < length (?M ! r)" and ne: "r \<noteq> c"
    from wf r have rK: "r < ?K" by (simp add: wf_mat_def)
    with wf c have "c < ?K" by (simp add: wf_mat_row)
    then show "?M ! r ! c = 0" using rK ne by (intro off)
  qed
  with run show "\<exists>M. calcConfusionMatrix P P = Inr M \<and> is_diagonal M" by blast
qed

theorem identical_inputs_witness:
  "[0, 1, 1 :: int] \<noteq> [] \<and> labels_in_bounds [0, 1, 1] [0, 1, 1] \<and>
   calcAccuracy [0, 1, 1] [0, 1, 1] = Inr (Fin 1) \<and>
   (\<exists>M. calcConfusionMatrix [0, 1, 1] [0, 1, 1] = Inr M \<and> is_diagonal M)"
proof -
  have h: "labels_in_bounds [0, 1, 1] [0, 1, 1]" by code_simp
  have n: "[0, 1, 1 :: int] \<noteq> []" by simp
  from identical_inputs [OF n h] h n show ?thesis by blast
qed

subsection \<open>calcAccuracyCM\<close>

text \<open>
  Claim C6, as stated, fails: on the zero matrix \<open>calcAccuracyCM\<close> raises no error, and what
  it returns is the value of the unguarded division \<open>0/0\<close>.
\<close>

theorem calcAccuracyCM_zero_sum_counterexample:
  "np_sum [[0, 0], [0, 0]] = 0 \<and>
   (\<forall>e. calcAccuracyCM [[0, 0], [0, 0]] \<noteq> Inl e) \<and>
   calcAccuracyCM [[0, 0], [0, 0]] = Inr (true_divide 0 0) \<and>
   true_divide 0 0 = NaN"
  by (simp add: calcAccuracyCM_def np_sum_def np_trace_def ncols_def true_divide_def Let_def)

lemma sum_list_all_zero:
  fixes xs :: "real list"
  shows "\<forall>x \<in> set xs. x = 0 \<Longrightarrow> sum_list xs = 0"
  by (induction xs) simp_all

lemma count_matrix_zero_trace:
  assumes "count_matrix M" and "np_sum M = 0"
  shows "np_trace M = 0"
proof -
  have rows: "\<forall>s \<in> set (map sum_list M). 0 \<le> s"
    using assms(1) by (auto simp: count_matrix_def intro!: sum_list_nonneg)
  have "sum_list (map sum_list M) = 0" using assms(2) by (simp add: np_sum_def)
  moreover have "(sum_list (map sum_list M) = 0) = (\<forall>s \<in> set (map sum_list M). s = 0)"
    using rows by (intro sum_list_nonneg_eq_0_iff) blast
  ultimately have "\<forall>s \<in> set (map sum_list M). s = 0"
    by blast
  then have row0: "sum_list row = 0" if "row \<in> set M" for row
    using that by simp
  have cell0: "M ! i ! i = 0" if "i < length M" for i
  proof -
    have mem: "M ! i \<in> set M" using that by simp
    then have "\<forall>x \<in> set (M ! i). 0 \<le> x" "length (M ! i) = length M"
      using assms(1) by (auto simp: count_matrix_def)
    with row0[OF mem] have "\<forall>x \<in> set (M ! i). x = 0" "i < length (M ! i)"
      using that by (simp_all add: sum_list_nonneg_eq_0_iff)
    then show ?thesis by simp
  qed
  have "\<forall>x \<in> set (map (\<lambda>i. M ! i ! i) [0..<min (length M) (ncols M)]). x = 0"
    by (auto simp: cell0)
  then have "sum_list (map (\<lambda>i. M ! i ! i) [0..<min (length M) (ncols M)]) = 0"
    by (rule sum_list_all_zero)
  then show ?thesis
    by (simp add: np_trace_def)
qed

lemma count_matrix_sum_nonneg: "count_matrix M \<Longrightarrow> 0 \<le> np_sum M"
  unfolding np_sum_def by (auto simp: count_matrix_def intro!: sum_list_nonneg)

text \<open>
  Claim C6, amended. On a square matrix of counts \<open>calcAccuracyCM\<close> makes no check and
  raises nothing: with a positive sum it returns the sum of the diagonal divided by the sum
  of all entries, and with sum zero it returns the \<open>nan\<close> of the division \<open>0/0\<close>.
\<close>

theorem calcAccuracyCM_value:
  assumes "count_matrix M"
  shows "calcAccuracyCM M = Inr (if 0 < np_sum M then Fin (np_trace M / np_sum M) else NaN)"
proof (cases "0 < np_sum M")
  case True
  then show ?thesis
    by (simp add: calcAccuracyCM_def Let_def true_divide_def)
next
  case False
  with count_matrix_sum_nonneg[OF assms] have z: "np_sum M = 0" by simp
  with count_matrix_zero_trace[OF assms] show ?thesis
    by (simp add: calcAccuracyCM_def Let_def true_divide_def)
qed

theorem calcAccuracyCM_value_witness:
  "count_matrix [[2, 0], [1, 2]] \<and> calcAccuracyCM [[2, 0], [1, 2]] = Inr (Fin (4 / 5)) \<and>
   count_matrix [[0, 0], [0, 0]] \<and> calcAccuracyCM [[0, 0], [0, 0]] = Inr NaN"
proof -
  have h1: "count_matrix [[2, 0], [1, 2]]" by (simp add: count_matrix_def)
  have h2: "count_matrix [[0, 0], [0, 0]]" by (simp add: count_matrix_def)
  have s1: "np_sum [[2, 0], [1, 2]] = 5" "np_trace [[2, 0], [1, 2]] = 4"
    by (simp_all add: np_sum_def np_trace_def ncols_def)
  have s2: "np_sum [[0, 0], [0, 0]] = 0" by (simp add: np_sum_def)
  from calcAccuracyCM_value [OF h1] calcAccuracyCM_value [OF h2] h1 h2 s1 s2
  show ?thesis by simp
qed

subsection \<open>Determinism and the order of rows and columns\<close>

text \<open>
  Claim C9, as stated, fails in its second half. For \<open>P = T = [-1, 1, 1]\<close> the sorted
  labels are \<open>[-1, 1]\<close> and one sample has predicted and true label \<open>-1\<close>, the first
  label; the cell \<open>(0, 0)\<close> is 0, since both labels select row and column 1.
\<close>

theorem confusion_matrix_ordering_counterexample:
  "np_unique ([-1, 1, 1] @ [-1, 1, 1]) = [-1, 1] \<and>
   length (filter (\<lambda>(p, t). p = -1 \<and> t = -1) (zip [-1, 1, 1 :: int] [-1, 1, 1 :: int])) = 1 \<and>
   calcConfusionMatrix [-1, 1, 1] [-1, 1, 1] = Inr [[0, 0], [0, 3]]"
  by code_simp

lemma tally_counts:
  assumes "labels_in_bounds P T"
  shows "tally (classNum_of P T) (np_zeros (classNum_of P T) (classNum_of P T)) (zip T P)
           = confusion_counts P T"
proof -
  let ?K = "classNum_of P T"
  let ?M = "tally ?K (np_zeros ?K ?K) (zip T P)"
  have wf: "wf_mat ?K ?M"
    by (intro wf_mat_tally wf_mat_zeros)
  have len: "length ?M = ?K" using wf by (simp add: wf_mat_def)
  have cell: "?M ! r ! c
                = real (length (filter (\<lambda>(t, p). wrap ?K p = r \<and> wrap ?K t = c) (zip T P)))"
    if "r < ?K" "c < ?K" for r c
    using tally_nth[OF wf_mat_zeros labels_in_bounds_pairs[OF assms] that]
    by (simp add: np_zeros_nth that)
  have row: "?M ! r = confusion_counts P T ! r" if "r < ?K" for r
  proof (rule nth_equalityI)
    show "length (?M ! r) = length (confusion_counts P T ! r)"
      using that wf by (simp add: wf_mat_row confusion_counts_def Let_def)
    fix c assume "c < length (?M ! r)"
    then have "c < ?K" using that wf by (simp add: wf_mat_row)
    then show "?M ! r ! c = confusion_counts P T ! r ! c"
      using that by (simp add: cell confusion_counts_def Let_def)
  qed
  show ?thesis
  proof (rule nth_equalityI)
    show "length ?M = length (confusion_counts P T)"
      by (simp add: len confusion_counts_def Let_def)
    fix r assume "r < length ?M"
    then show "?M ! r = confusion_counts P T ! r" using len row by simp
  qed
qed

text \<open>
  Claim C9, amended. The outcome of \<open>calcConfusionMatrix\<close> is fixed by the label values of
  its two arguments, so that two invocations on the same sequences agree. For int64 label
  sequences of the same length it raises IndexError when some label is no valid index of
  an axis of size \<open>K\<close>, and otherwise returns the \<open>K \<times> K\<close> matrix whose cell \<open>(r, c)\<close>
  counts the samples whose predicted label selects row \<open>r\<close> and whose true label selects
  column \<open>c\<close>; a label selects the row and column of its own value. When the labels are
  \<open>0, \<dots>, K-1\<close>, that is the position of the label in the ascending list of the labels.
\<close>

theorem confusion_matrix_outcome:
  assumes "length P = length T" and "int64_labels P" and "int64_labels T"
  shows "calcConfusionMatrix P T
           = (if labels_in_bounds P T then Inr (confusion_counts P T) else Inl IndexError) \<and>
         (labels_are_indices P T \<longrightarrow>
            (\<forall>l \<in> set (P @ T). np_unique (P @ T) ! wrap (classNum_of P T) l = l))"
proof
  show "calcConfusionMatrix P T
          = (if labels_in_bounds P T then Inr (confusion_counts P T) else Inl IndexError)"
  proof (cases "labels_in_bounds P T")
    case True
    then show ?thesis
      by (simp add: calcConfusionMatrix_in_bounds tally_counts)
  next
    case False
    with assms(1) show ?thesis
      by (simp add: calcConfusionMatrix_out_of_bounds)
  qed
  show "labels_are_indices P T \<longrightarrow>
          (\<forall>l \<in> set (P @ T). np_unique (P @ T) ! wrap (classNum_of P T) l = l)"
  proof (intro impI ballI)
    fix l assume ok: "labels_are_indices P T" and l: "l \<in> set (P @ T)"
    then have b: "0 \<le> l" "l < int (classNum_of P T)"
      by (auto simp: labels_are_indices_def)
    then have "wrap (classNum_of P T) l = nat l" "nat l < classNum_of P T"
      by (simp_all add: wrap_def)
    then show "np_unique (P @ T) ! wrap (classNum_of P T) l = l"
      using b(1) by (simp add: np_unique_indices[OF ok])
  qed
qed

theorem confusion_matrix_outcome_witness:
  "length [0, 1, 1, 0, 1 :: int] = length [0, 1, 0, 0, 1 :: int] \<and>
   int64_labels [0, 1, 1, 0, 1] \<and> int64_labels [0, 1, 0, 0, 1] \<and>
   labels_in_bounds [0, 1, 1, 0, 1] [0, 1, 0, 0, 1] \<and>
   labels_are_indices [0, 1, 1, 0, 1] [0, 1, 0, 0, 1] \<and>
   calcConfusionMatrix [0, 1, 1, 0, 1] [0, 1, 0, 0, 1]
     = Inr (confusion_counts [0, 1, 1, 0, 1] [0, 1, 0, 0, 1]) \<and>
   confusion_counts [0, 1, 1, 0, 1] [0, 1, 0, 0, 1] = [[2, 0], [1, 2]] \<and>
   np_unique ([0, 1, 1, 0, 1] @ [0, 1, 0, 0, 1]) ! wrap (classNum_of [0, 1, 1, 0, 1] [0, 1, 0, 0, 1]) 1 = 1 \<and>
   length [1, 2 :: int] = length [1, 2 :: int] \<and>
   int64_labels [1, 2] \<and> \<not> labels_in_bounds [1, 2] [1, 2] \<and>
   calcConfusionMatrix [1, 2] [1, 2] = Inl IndexError"
proof -
  have l: "length [0, 1, 1, 0, 1 :: int] = length [0, 1, 0, 0, 1 :: int]" by simp
  have h1: "int64_labels [0, 1, 1, 0, 1]" and h2: "int64_labels [0, 1, 0, 0, 1]"
    and h3: "int64_labels [1, 2]"
    by (simp_all add: int64_labels_def)
  have b: "labels_in_bounds [0, 1, 1, 0, 1] [0, 1, 0, 0, 1]" by code_simp
  have i: "labels_are_indices [0, 1, 1, 0, 1] [0, 1, 0, 0, 1]" by code_simp
  have nb: "\<not> labels_in_bounds [1, 2] [1, 2]" by code_simp
  have v: "confusion_counts [0, 1, 1, 0, 1] [0, 1, 0, 0, 1] = [[2, 0], [1, 2]]" by code_simp
  have m: "(1::int) \<in> set ([0, 1, 1, 0, 1] @ [0, 1, 0, 0, 1])" by simp
  from confusion_matrix_outcome [OF l h1 h2] confusion_matrix_outcome [OF refl h3 h3]
    l h1 h2 h3 b i nb v m
  show ?thesis by auto
qed

end
